theory Spec2Isabelle
  imports Complex_Main "HOL-Library.Signed_Division" "HOL-Library.Sublist"
begin

section \<open>The stress-test runner of \<^verbatim>\<open>stresstest/stresstest.go\<close>\<close>

text \<open>
  The Go package issues \<^verbatim>\<open>Requests\<close> HTTP calls from a set of goroutines and folds every
  outcome into one \<^verbatim>\<open>StressReport\<close>. The embedding follows the source function by
  function. What lies outside the package is an input of the model:
  \<^item> what \<^verbatim>\<open>http.NewRequest\<close> and \<^verbatim>\<open>client.Do\<close> return and what the clock measures;
  \<^item> the rounding of \<^verbatim>\<open>float64\<close> arithmetic.

  Every \<^verbatim>\<open>updateReport\<close> runs with the mutex \<^verbatim>\<open>s.mu\<close> held from its first to its last
  statement, so the calls of one run happen one after the other in some order.
  \<open>merge_all\<close>, \<open>run\<close> and \<open>Run\<close> take the attempts in that order, up to the first panic:
  as long as no goroutine panics, which goroutine made which attempt does not change any
  field of the report (lemma \<open>Run_scheduled_without_panic\<close>). Their result \<open>Inl p\<close> says
  that the first panic of the run is \<open>p\<close>, and no more than that: a panic in a goroutine
  first runs the deferred calls of that goroutine (\<^verbatim>\<open>s.mu.Unlock()\<close> inside
  \<^verbatim>\<open>updateReport\<close>, then \<^verbatim>\<open>wg.Done()\<close>), and only then does the Go runtime end the
  process; until it has, the other goroutines go on and \<^verbatim>\<open>Run()\<close> may return. \<open>exec\<close>
  and \<open>Run_scheduled\<close> follow the goroutines one by one and cover what happens after a
  panic.

  Go's \<^verbatim>\<open>int\<close> and \<^verbatim>\<open>int64\<close> are modelled by \<^typ>\<open>int\<close>: the counters only ever grow by one
  per merged attempt (lemma \<open>merge_all_counters_bounded\<close> below bounds them by the number
  of attempts, itself a Go \<^verbatim>\<open>int\<close>), and the elapsed times are only compared and copied.
  Go's \<^verbatim>\<open>++\<close> wraps at \<open>2\<^sup>6\<^sup>3 - 1\<close>; a statement about a report that is not reached from
  \<open>NewStress\<close> takes its counters below that value.
\<close>

subsection \<open>Data\<close>

type_synonym MapStatusRequests = "int \<rightharpoonup> int"

text \<open>
  A \<^verbatim>\<open>float64\<close> is either a finite number or one of NaN, +Inf, -Inf, which the model does
  not tell apart.
\<close>

datatype float64 = Float real | NonFinite

record StressReport =
  Requests :: int
  Failed :: int
  Succeeded :: int
  TimedOut :: int
  TotalTime :: float64
  AverageTime :: float64
  FastestTime :: int
  SlowestTime :: int
  PercentageSucceeded :: float64
  PercentageFailed :: float64
  PercentageTimedOut :: float64
  StatusRequests :: MapStatusRequests

definition NewStressReport :: StressReport where
  "NewStressReport =
     \<lparr>Requests = 0, Failed = 0, Succeeded = 0, TimedOut = 0,
      TotalTime = Float 0, AverageTime = Float 0,
      FastestTime = 0, SlowestTime = 0,
      PercentageSucceeded = Float 0, PercentageFailed = Float 0,
      PercentageTimedOut = Float 0,
      StatusRequests = Map.empty\<rparr>"

text \<open>
  The struct \<^verbatim>\<open>Stress\<close>. Its field \<^verbatim>\<open>Requests\<close> is named \<open>TotalRequests\<close> here, since
  the report has a field of the same name; the mutex \<^verbatim>\<open>mu\<close> is the serialisation of
  the merges described above.
\<close>

record Stress =
  URL :: string
  Method :: string
  Concurrency :: int
  TotalRequests :: int
  Timeout :: int
  Verbose :: bool
  Report :: StressReport
  VerifyTls :: bool

definition NewStress ::
  "string \<Rightarrow> string \<Rightarrow> int \<Rightarrow> int \<Rightarrow> int \<Rightarrow> bool \<Rightarrow> bool \<Rightarrow> Stress" where
  "NewStress url method concurrency requests timeout verifyTls verbose =
     \<lparr>URL = url, Method = method, Concurrency = concurrency,
      TotalRequests = requests, Timeout = timeout, Verbose = verbose,
      Report = NewStressReport, VerifyTls = verifyTls\<rparr>"

text \<open>The ways the Go process can stop before \<^verbatim>\<open>Run\<close> returns.\<close>

datatype abort =
    PanicErr string         \<comment> \<open>\<^verbatim>\<open>panic(err)\<close>, with \<^verbatim>\<open>err.Error()\<close>\<close>
  | NilDereference          \<comment> \<open>a field read through a nil pointer\<close>
  | DivideByZero            \<comment> \<open>integer division by zero\<close>

text \<open>
  One attempt, as \<^verbatim>\<open>runRequest\<close> sees it: the error of \<^verbatim>\<open>http.NewRequest\<close> (\<open>None\<close> is
  nil), the two results of \<^verbatim>\<open>client.Do\<close> (the status code of the response, \<open>None\<close> for a
  nil response; the text \<^verbatim>\<open>err.Error()\<close>, \<open>None\<close> for a nil error) and the milliseconds
  measured around it.
\<close>

record Attempt =
  newRequestErr :: "string option"
  res :: "int option"
  err :: "string option"
  elapsed :: int

subsection \<open>Library functions the source calls\<close>

text \<open>\<^verbatim>\<open>strings.Contains(s, substr)\<close>: \<open>substr\<close> occurs in \<open>s\<close> as a contiguous block.\<close>

fun Contains :: "string \<Rightarrow> string \<Rightarrow> bool" where
  "Contains [] substr = (substr = [])"
| "Contains (c # cs) substr = (prefix substr (c # cs) \<or> Contains cs substr)"

text \<open>\<^verbatim>\<open>http.ErrHandlerTimeout.Error()\<close>, the text of the error of net/http's \<^verbatim>\<open>TimeoutHandler\<close>.\<close>

definition ErrHandlerTimeout :: string where
  "ErrHandlerTimeout = ''http: Handler timeout''"

text \<open>
  Every error of \<^verbatim>\<open>client.Do\<close> is a \<^verbatim>\<open>*url.Error\<close>, whose text is made by the format
  \<^verbatim>\<open>%s %q: %s\<close> from the operation, the URL and the inner error: the URL stands between
  double quotes (\<open>quoted\<close> is what \<^verbatim>\<open>%q\<close> puts between them).
\<close>

definition url_Error :: "string \<Rightarrow> string \<Rightarrow> string \<Rightarrow> string" where
  "url_Error op quoted inner =
     op @ '' '' @ [CHR 0x22] @ quoted @ [CHR 0x22] @ '': '' @ inner"

text \<open>The error of a request that ran into \<^verbatim>\<open>client.Timeout\<close>, and of one that was refused.\<close>

definition client_timeout_text :: string where
  "client_timeout_text =
     url_Error ''Get'' ''http://localhost:8080''
       ''context deadline exceeded (Client.Timeout exceeded while awaiting headers)''"

definition refused_text :: string where
  "refused_text =
     url_Error ''Get'' ''http://localhost:8080''
       ''dial tcp 127.0.0.1:8080: connect: connection refused''"

subsection \<open>\<^verbatim>\<open>updateReport\<close>\<close>

text \<open>
  The histogram update of the source, in its two statements: the bucket is created at
  zero when the key is absent, then incremented.
\<close>

definition bump :: "MapStatusRequests \<Rightarrow> int \<Rightarrow> MapStatusRequests" where
  "bump m code =
     (let m' = (if m code = None then m(code \<mapsto> 0) else m)
      in m'(code \<mapsto> the (m' code) + 1))"

definition updateTimes :: "StressReport \<Rightarrow> int \<Rightarrow> StressReport" where
  "updateTimes r el =
     (let r1 = r\<lparr>Requests := Requests r + 1\<rparr>;
          r2 = (if el < FastestTime r1 \<or> FastestTime r1 = 0
                then r1\<lparr>FastestTime := el\<rparr> else r1)
      in if el > SlowestTime r2 then r2\<lparr>SlowestTime := el\<rparr> else r2)"

definition updateReport ::
  "StressReport \<Rightarrow> int option \<Rightarrow> string option \<Rightarrow> int \<Rightarrow> abort + StressReport" where
  "updateReport r rs er el =
     (case er of
        Some e \<Rightarrow>
          if Contains e ''connection refused'' then Inl (PanicErr e)
          else
            let r1 = (if e = ErrHandlerTimeout then r\<lparr>TimedOut := TimedOut r + 1\<rparr> else r);
                r2 = r1\<lparr>Failed := Failed r1 + 1\<rparr>
            in Inr (updateTimes r2 el)
      | None \<Rightarrow>
          (case rs of
             None \<Rightarrow> Inl NilDereference
           | Some code \<Rightarrow>
               let r1 = (if code \<noteq> 200 then r\<lparr>Failed := Failed r + 1\<rparr>
                         else r\<lparr>Succeeded := Succeeded r + 1\<rparr>);
                   r2 = r1\<lparr>StatusRequests := bump (StatusRequests r1) code\<rparr>
               in Inr (updateTimes r2 el)))"

subsection \<open>\<^verbatim>\<open>runRequest\<close>\<close>

text \<open>
  The printed lines are not part of the model, but the verbose line reads
  \<^verbatim>\<open>res.StatusCode\<close> before \<^verbatim>\<open>updateReport\<close> is called, whatever \<^verbatim>\<open>err\<close> is.
\<close>

definition runRequest :: "Stress \<Rightarrow> Attempt \<Rightarrow> abort + Stress" where
  "runRequest s a =
     (case newRequestErr a of
        Some e \<Rightarrow> Inl (PanicErr e)
      | None \<Rightarrow>
          if Verbose s \<and> res a = None then Inl NilDereference
          else
            (case updateReport (Report s) (res a) (err a) (elapsed a) of
               Inl p \<Rightarrow> Inl p
             | Inr r \<Rightarrow> Inr (s\<lparr>Report := r\<rparr>)))"

subsection \<open>\<^verbatim>\<open>float64\<close> arithmetic\<close>

text \<open>
  Each conversion and each operation of IEEE arithmetic returns the exact result
  rounded; the rounding function \<open>rnd\<close> is a parameter. Dividing by zero gives NaN or an
  infinity, never a panic. The operands in \<^verbatim>\<open>run\<close> are conversions of integers, so an
  operation on a non-finite operand only arises after a division by zero.
\<close>

definition float64_of_int :: "(real \<Rightarrow> real) \<Rightarrow> int \<Rightarrow> float64" where
  "float64_of_int rnd n = Float (rnd (real_of_int n))"

definition fdiv :: "(real \<Rightarrow> real) \<Rightarrow> float64 \<Rightarrow> float64 \<Rightarrow> float64" where
  "fdiv rnd a b =
     (case (a, b) of
        (Float x, Float y) \<Rightarrow> if y = 0 then NonFinite else Float (rnd (x / y))
      | _ \<Rightarrow> NonFinite)"

definition fmul :: "(real \<Rightarrow> real) \<Rightarrow> float64 \<Rightarrow> float64 \<Rightarrow> float64" where
  "fmul rnd a b =
     (case (a, b) of
        (Float x, Float y) \<Rightarrow> Float (rnd (x * y))
      | _ \<Rightarrow> NonFinite)"

subsection \<open>\<^verbatim>\<open>run\<close> and \<^verbatim>\<open>Run\<close>\<close>

text \<open>
  The inner loop of a goroutine of the first \<^verbatim>\<open>for\<close>: the list of the arguments of its
  calls of \<^verbatim>\<open>runRequest\<close>, from loop counter \<open>j\<close> on. Go's \<^verbatim>\<open>/\<close> and \<^verbatim>\<open>%\<close> on integers
  truncate towards zero: \<open>sdiv\<close> and \<open>smod\<close>.
\<close>

function worker_calls :: "Stress \<Rightarrow> int \<Rightarrow> int \<Rightarrow> int list" where
  "worker_calls s g j =
     (if j < TotalRequests s sdiv Concurrency s then g # worker_calls s g (j + 1) else [])"
  by pat_completeness auto
termination
  by (relation "measure (\<lambda>(s, g, j). nat (TotalRequests s sdiv Concurrency s - j))") auto

text \<open>The first \<^verbatim>\<open>for\<close> of \<^verbatim>\<open>run\<close>, from loop counter \<open>i\<close> on: one goroutine per iteration.\<close>

function base_workers :: "Stress \<Rightarrow> int \<Rightarrow> int list list" where
  "base_workers s i =
     (if i < Concurrency s then worker_calls s (i + 1) 0 # base_workers s (i + 1) else [])"
  by pat_completeness auto
termination
  by (relation "measure (\<lambda>(s, i). nat (Concurrency s - i))") auto

text \<open>The second \<^verbatim>\<open>for\<close>: one goroutine per iteration, with one call each.\<close>

function extra_workers :: "Stress \<Rightarrow> int \<Rightarrow> int list list" where
  "extra_workers s i =
     (if i < TotalRequests s smod Concurrency s then [i + 1] # extra_workers s (i + 1) else [])"
  by pat_completeness auto
termination
  by (relation "measure (\<lambda>(s, i). nat (TotalRequests s smod Concurrency s - i))") auto

text \<open>
  All goroutines of a run. With \<^verbatim>\<open>Concurrency\<close> zero the first loop does not run and the
  condition of the second divides by zero.
\<close>

definition spawn :: "Stress \<Rightarrow> abort + int list list" where
  "spawn s =
     (if Concurrency s = 0 then Inl DivideByZero
      else Inr (base_workers s 0 @ extra_workers s 0))"

text \<open>The calls of \<^verbatim>\<open>runRequest\<close> in the order of their merges, up to the first panic.\<close>

fun merge_all :: "Stress \<Rightarrow> Attempt list \<Rightarrow> abort + Stress" where
  "merge_all s [] = Inr s"
| "merge_all s (a # as) =
     (case runRequest s a of Inl p \<Rightarrow> Inl p | Inr s' \<Rightarrow> merge_all s' as)"

text \<open>
  What a run meets outside the package: the attempts in merge order (as many are used
  as the goroutines make calls), the milliseconds \<^verbatim>\<open>time.Since(start).Milliseconds()\<close> at
  the end of \<^verbatim>\<open>run\<close>, and the rounding of \<^verbatim>\<open>float64\<close>.
\<close>

record World =
  attempt :: "nat \<Rightarrow> Attempt"
  wallClock :: int
  rounding :: "real \<Rightarrow> real"

text \<open>The statements of \<^verbatim>\<open>run\<close> after \<^verbatim>\<open>wg.Wait()\<close>.\<close>

definition finish :: "World \<Rightarrow> StressReport \<Rightarrow> StressReport" where
  "finish w r =
     (let rnd = rounding w;
          r1 = r\<lparr>TotalTime := float64_of_int rnd (wallClock w)\<rparr>;
          r2 = r1\<lparr>AverageTime := fdiv rnd (TotalTime r1) (float64_of_int rnd (Requests r1))\<rparr>;
          r3 = r2\<lparr>PercentageSucceeded :=
                  fmul rnd (fdiv rnd (float64_of_int rnd (Succeeded r2))
                                     (float64_of_int rnd (Requests r2))) (Float 100)\<rparr>;
          r4 = r3\<lparr>PercentageFailed :=
                  fmul rnd (fdiv rnd (float64_of_int rnd (Failed r3))
                                     (float64_of_int rnd (Requests r3))) (Float 100)\<rparr>
      in r4\<lparr>PercentageTimedOut :=
                  fmul rnd (fdiv rnd (float64_of_int rnd (TimedOut r4))
                                     (float64_of_int rnd (Requests r4))) (Float 100)\<rparr>)"

definition issued :: "World \<Rightarrow> int list list \<Rightarrow> Attempt list" where
  "issued w ws = map (attempt w) [0..<length (concat ws)]"

definition run :: "World \<Rightarrow> Stress \<Rightarrow> abort + Stress" where
  "run w s =
     (case spawn s of
        Inl p \<Rightarrow> Inl p
      | Inr ws \<Rightarrow>
          (case merge_all s (issued w ws) of
             Inl p \<Rightarrow> Inl p
           | Inr s' \<Rightarrow> Inr (s'\<lparr>Report := finish w (Report s')\<rparr>)))"

text \<open>
  \<^verbatim>\<open>Run\<close> returns the receiver as \<^verbatim>\<open>run\<close> left it and its \<^verbatim>\<open>error\<close> result (\<open>None\<close> is
  nil), when no goroutine has panicked.
\<close>

definition Run :: "World \<Rightarrow> Stress \<Rightarrow> abort + (Stress \<times> string option)" where
  "Run w s =
     (case run w s of
        Inl p \<Rightarrow> Inl p
      | Inr s' \<Rightarrow> Inr (s', None))"

subsection \<open>Goroutines and panics\<close>

text \<open>
  \<open>exec\<close> runs the goroutines of \<open>spawn\<close> under a schedule: the list of the goroutines,
  by their index, in the order in which they make their calls of \<^verbatim>\<open>runRequest\<close>, for as
  long as the process lives. \<open>pend\<close> holds for every goroutine the calls it has still to
  make, \<open>k\<close> counts the calls made, the \<open>k\<close>-th of which meets \<open>attempt w k\<close>, and \<open>dp\<close> is
  the first panic so far. A goroutine with no call left is not scheduled. A call that
  panics leaves the receiver as it was (the panics of \<^verbatim>\<open>runRequest\<close> and \<^verbatim>\<open>updateReport\<close>
  come before any assignment), releases the mutex and ends its goroutine through the
  deferred \<^verbatim>\<open>s.mu.Unlock()\<close> and \<^verbatim>\<open>wg.Done()\<close>; the other goroutines go on until the
  runtime has ended the process, which is where the schedule ends.
\<close>

fun exec ::
  "World \<Rightarrow> nat list \<Rightarrow> nat \<Rightarrow> Stress \<Rightarrow> int list list \<Rightarrow> abort option \<Rightarrow>
     Stress \<times> int list list \<times> abort option" where
  "exec w [] k s pend dp = (s, pend, dp)"
| "exec w (i # is) k s pend dp =
     (if i < length pend \<and> pend ! i \<noteq> [] then
        (case runRequest s (attempt w k) of
           Inr s' \<Rightarrow> exec w is (k + 1) s' (pend[i := tl (pend ! i)]) dp
         | Inl p \<Rightarrow>
             exec w is (k + 1) s (pend[i := []])
               (case dp of None \<Rightarrow> Some p | Some q \<Rightarrow> Some q))
      else exec w is k s pend dp)"

text \<open>
  What has become of a run when its schedule ends: the receiver, the \<^verbatim>\<open>error\<close> result of
  \<^verbatim>\<open>Run\<close> if it has returned, and the panic the process ends with, if any.
\<close>

record Outcome =
  final :: Stress
  returned :: "string option option"
  died :: "abort option"

text \<open>
  \<^verbatim>\<open>Run\<close> under a schedule. \<^verbatim>\<open>wg.Wait()\<close> returns when every goroutine has ended, by
  finishing its calls or by a panic. When a goroutine has panicked, \<open>main_first\<close> says
  whether the main goroutine gets through the rest of \<^verbatim>\<open>run\<close> and returns from \<^verbatim>\<open>Run\<close>
  before the runtime has ended the process. With \<^verbatim>\<open>Concurrency\<close> zero the main goroutine
  itself panics, before any other goroutine exists.
\<close>

definition Run_scheduled :: "World \<Rightarrow> nat list \<Rightarrow> bool \<Rightarrow> Stress \<Rightarrow> Outcome" where
  "Run_scheduled w sched main_first s =
     (case spawn s of
        Inl p \<Rightarrow> \<lparr>final = s, returned = None, died = Some p\<rparr>
      | Inr ws \<Rightarrow>
          (case exec w sched 0 s ws None of
             (s', pend, dp) \<Rightarrow>
               if concat pend = [] \<and> (dp = None \<or> main_first)
               then \<lparr>final = s'\<lparr>Report := finish w (Report s')\<rparr>,
                     returned = Some None, died = dp\<rparr>
               else \<lparr>final = s', returned = None, died = dp\<rparr>))"

subsection \<open>Notions used in the statements\<close>

text \<open>The sum of all buckets of the status-code histogram.\<close>

definition hist_total :: "MapStatusRequests \<Rightarrow> int" where
  "hist_total m = (\<Sum>k\<in>dom m. the (m k))"

text \<open>An attempt that came back from the transport with a response: \<^verbatim>\<open>err == nil\<close>.\<close>

definition answered :: "Attempt \<Rightarrow> bool" where
  "answered a \<longleftrightarrow> err a = None"

text \<open>The invariant of the four counters.\<close>

definition counted :: "StressReport \<Rightarrow> bool" where
  "counted r \<longleftrightarrow>
     Succeeded r + Failed r = Requests r \<and> 0 \<le> Succeeded r \<and>
     0 \<le> TimedOut r \<and> TimedOut r \<le> Failed r"

text \<open>The invariant of the histogram: finitely many buckets, with sum \<open>n\<close>.\<close>

definition hist_ok :: "StressReport \<Rightarrow> int \<Rightarrow> bool" where
  "hist_ok r n \<longleftrightarrow> finite (dom (StatusRequests r)) \<and> hist_total (StatusRequests r) = n"

text \<open>
  A rounding function with relative error at most \<open>u\<close> on zero and on the magnitudes of
  the normal numbers of binary64, from \<open>2\<^sup>-\<^sup>1\<^sup>0\<^sup>2\<^sup>2\<close> to \<open>2\<^sup>1\<^sup>0\<^sup>2\<^sup>3\<close>. Rounding to nearest in
  binary64 is such a function for \<open>u = 2\<^sup>-\<^sup>5\<^sup>3\<close>.
\<close>

definition rounds_within :: "real \<Rightarrow> (real \<Rightarrow> real) \<Rightarrow> bool" where
  "rounds_within u rnd \<longleftrightarrow>
     (\<forall>x. x = 0 \<or> (1 / 2 ^ 1022 \<le> \<bar>x\<bar> \<and> \<bar>x\<bar> \<le> 2 ^ 1023) \<longrightarrow> \<bar>rnd x - x\<bar> \<le> u * \<bar>x\<bar>)"

subsection \<open>Concrete runs\<close>

text \<open>An attempt answered with a status code, and one that failed in the transport.\<close>

definition responded :: "int \<Rightarrow> int \<Rightarrow> Attempt" where
  "responded code ms = \<lparr>newRequestErr = None, res = Some code, err = None, elapsed = ms\<rparr>"

definition failed_with :: "string \<Rightarrow> int \<Rightarrow> Attempt" where
  "failed_with e ms = \<lparr>newRequestErr = None, res = None, err = Some e, elapsed = ms\<rparr>"

text \<open>
  A world that merges the given attempts in their order (and answers 200 after them),
  takes 40 ms in all and rounds with the function given.
\<close>

definition world_of :: "Attempt list \<Rightarrow> (real \<Rightarrow> real) \<Rightarrow> World" where
  "world_of as rnd =
     \<lparr>attempt = (\<lambda>k. if k < length as then as ! k else responded 200 1),
      wallClock = 40, rounding = rnd\<rparr>"

text \<open>Three requests over two goroutines: a 200, a 500 and a broken connection.\<close>

definition example_stress :: Stress where
  "example_stress = NewStress ''http://localhost:8080'' ''GET'' 2 3 1 True False"

definition example_attempts :: "Attempt list" where
  "example_attempts = [responded 200 12, responded 500 3, failed_with ''EOF'' 7]"

text \<open>
  The invariant of the two times after the attempts with elapsed times \<open>els\<close>, none of
  them zero, have been merged.
\<close>

definition timed :: "StressReport \<Rightarrow> int list \<Rightarrow> bool" where
  "timed r els \<longleftrightarrow>
     (\<forall>e\<in>set els. e \<le> SlowestTime r) \<and> 0 \<le> SlowestTime r \<and>
     (if els = [] then FastestTime r = 0
      else FastestTime r \<in> set els \<and> (\<forall>e\<in>set els. FastestTime r \<le> e))"

text \<open>The four counters of a report, when there is one.\<close>

definition tally :: "abort + StressReport \<Rightarrow> (int \<times> int \<times> int \<times> int) option" where
  "tally x =
     (case x of
        Inl p \<Rightarrow> None
      | Inr r \<Rightarrow> Some (Requests r, Succeeded r, Failed r, TimedOut r))"

text \<open>A rounding function that is off by the factor \<open>1 + 2\<^sup>-\<^sup>5\<^sup>3\<close> everywhere.\<close>

definition round_up :: "real \<Rightarrow> real" where
  "round_up x = x * (1 + 1 / 2 ^ 53)"

section \<open>Properties\<close>

declare worker_calls.simps [simp del] base_workers.simps [simp del] extra_workers.simps [simp del]

subsection \<open>One merge\<close>

lemma updateTimes_fields [simp]:
  "Requests (updateTimes r el) = Requests r + 1"
  "Succeeded (updateTimes r el) = Succeeded r"
  "Failed (updateTimes r el) = Failed r"
  "TimedOut (updateTimes r el) = TimedOut r"
  "StatusRequests (updateTimes r el) = StatusRequests r"
  by (simp_all add: updateTimes_def Let_def)

lemma updateReport_counters:
  assumes "updateReport r rs er el = Inr r'"
  shows "Requests r' = Requests r + 1"
    and "Succeeded r' + Failed r' = Succeeded r + Failed r + 1"
    and "Succeeded r \<le> Succeeded r'" and "Failed r \<le> Failed r'"
    and "TimedOut r \<le> TimedOut r'"
    and "TimedOut r' - TimedOut r \<le> Failed r' - Failed r"
  using assms
  by (auto simp: updateReport_def Let_def split: option.splits if_splits)

lemma updateTimes_slowest: "SlowestTime (updateTimes r el) = max (SlowestTime r) el"
  by (simp add: updateTimes_def Let_def)

lemma updateTimes_fastest:
  "FastestTime (updateTimes r el) =
     (if el < FastestTime r \<or> FastestTime r = 0 then el else FastestTime r)"
  by (simp add: updateTimes_def Let_def)

lemma updateReport_times:
  assumes "updateReport r rs er el = Inr r'"
  shows "FastestTime r' = FastestTime (updateTimes r el)"
    and "SlowestTime r' = SlowestTime (updateTimes r el)"
  using assms
  by (auto simp: updateReport_def updateTimes_def Let_def split: option.splits if_splits)

lemma updateReport_histogram:
  assumes "updateReport r rs er el = Inr r'"
  shows "StatusRequests r' = (case er of Some e \<Rightarrow> StatusRequests r
                              | None \<Rightarrow> bump (StatusRequests r) (the rs))"
  using assms by (auto simp: updateReport_def Let_def split: option.splits if_splits)

lemma runRequest_Inr:
  "runRequest s a = Inr s' \<Longrightarrow>
     \<exists>r'. updateReport (Report s) (res a) (err a) (elapsed a) = Inr r' \<and> s' = s\<lparr>Report := r'\<rparr>"
  by (auto simp: runRequest_def split: option.splits if_splits sum.splits)

subsection \<open>The counters\<close>

lemma runRequest_counted:
  "runRequest s a = Inr s' \<Longrightarrow> counted (Report s) \<Longrightarrow> counted (Report s')"
  by (drule runRequest_Inr) (use updateReport_counters in \<open>fastforce simp: counted_def\<close>)

lemma merge_all_counted:
  "merge_all s as = Inr s' \<Longrightarrow> counted (Report s) \<Longrightarrow> counted (Report s')"
  by (induction as arbitrary: s) (auto split: sum.splits dest: runRequest_counted)

lemma merge_all_Requests:
  "merge_all s as = Inr s' \<Longrightarrow> Requests (Report s') = Requests (Report s) + int (length as)"
proof (induction as arbitrary: s)
  case Nil
  then show ?case by simp
next
  case (Cons a as)
  then show ?case
    by (auto split: sum.splits dest!: runRequest_Inr dest: updateReport_counters(1))
qed

lemma finish_counters [simp]:
  "Requests (finish w r) = Requests r"
  "Succeeded (finish w r) = Succeeded r"
  "Failed (finish w r) = Failed r"
  "TimedOut (finish w r) = TimedOut r"
  "StatusRequests (finish w r) = StatusRequests r"
  "FastestTime (finish w r) = FastestTime r"
  "SlowestTime (finish w r) = SlowestTime r"
  by (simp_all add: finish_def Let_def)

lemma Run_Inr:
  "Run w s = Inr (s', e) \<Longrightarrow>
     e = None \<and> (\<exists>ws s1. spawn s = Inr ws \<and> merge_all s (issued w ws) = Inr s1 \<and>
        s' = s1\<lparr>Report := finish w (Report s1)\<rparr>)"
  by (auto simp: Run_def run_def split: sum.splits)

lemma counted_NewStress: "counted (Report (NewStress url method c n t vt vb))"
  by (simp add: counted_def NewStress_def NewStressReport_def)

lemma merge_all_counters_bounded:
  assumes "merge_all (NewStress url method c n t vt vb) as = Inr s'"
  shows "Requests (Report s') = int (length as)"
    and "0 \<le> Succeeded (Report s') \<and> Succeeded (Report s') \<le> int (length as)"
    and "0 \<le> Failed (Report s') \<and> Failed (Report s') \<le> int (length as)"
    and "0 \<le> TimedOut (Report s') \<and> TimedOut (Report s') \<le> int (length as)"
proof -
  have c: "counted (Report s')"
    using assms counted_NewStress by (rule merge_all_counted)
  show n: "Requests (Report s') = int (length as)"
    using merge_all_Requests [OF assms] by (simp add: NewStress_def NewStressReport_def)
  from c n show "0 \<le> Succeeded (Report s') \<and> Succeeded (Report s') \<le> int (length as)"
    and "0 \<le> Failed (Report s') \<and> Failed (Report s') \<le> int (length as)"
    and "0 \<le> TimedOut (Report s') \<and> TimedOut (Report s') \<le> int (length as)"
    by (simp_all add: counted_def)
qed

subsection \<open>The example run\<close>

lemma example_spawn: "spawn example_stress = Inr [[1], [2], [1]]"
  by (simp add: spawn_def example_stress_def NewStress_def worker_calls.simps base_workers.simps
        extra_workers.simps signed_divide_int_def signed_modulo_int_def)

lemma example_issued: "issued (world_of example_attempts rnd) [[1], [2], [1]] = example_attempts"
  by (simp add: issued_def world_of_def example_attempts_def upt_rec)

lemma example_merge:
  "merge_all example_stress example_attempts =
     Inr (example_stress\<lparr>Report := NewStressReport\<lparr>Requests := 3, Failed := 2, Succeeded := 1,
            FastestTime := 3, SlowestTime := 12,
            StatusRequests := [200 \<mapsto> 1, 500 \<mapsto> 1]\<rparr>\<rparr>)"
  by (simp add: example_attempts_def example_stress_def NewStress_def NewStressReport_def
        responded_def failed_with_def runRequest_def updateReport_def updateTimes_def bump_def
        ErrHandlerTimeout_def Let_def)

lemma example_run:
  "\<exists>s'. Run (world_of example_attempts rnd) example_stress = Inr (s', None) \<and>
        Requests (Report s') = 3 \<and> Succeeded (Report s') = 1 \<and> Failed (Report s') = 2 \<and>
        TimedOut (Report s') = 0 \<and> StatusRequests (Report s') = [200 \<mapsto> 1, 500 \<mapsto> 1]"
  by (simp add: Run_def run_def example_spawn example_issued example_merge NewStressReport_def)

text \<open>
  C1. Whenever \<^verbatim>\<open>Run\<close> returns, the report has \<open>Succeeded + Failed = Requests\<close>, and
  \<open>TimedOut\<close> counts some of the failed requests (\<open>0 \<le> TimedOut \<le> Failed\<close>): it is no
  third summand. \<open>Requests\<close> is the number of calls the goroutines made.
\<close>

theorem report_counts_succeeded_failed:
  assumes "Run w (NewStress url method c n t vt vb) = Inr (s', e)"
  shows "Succeeded (Report s') + Failed (Report s') = Requests (Report s') \<and>
         0 \<le> TimedOut (Report s') \<and> TimedOut (Report s') \<le> Failed (Report s') \<and>
         (\<exists>ws. spawn (NewStress url method c n t vt vb) = Inr ws \<and>
               Requests (Report s') = int (length (concat ws)))"
proof -
  let ?s = "NewStress url method c n t vt vb"
  from Run_Inr [OF assms] obtain ws s1 where
    sp: "spawn ?s = Inr ws" and m: "merge_all ?s (issued w ws) = Inr s1"
    and s': "s' = s1\<lparr>Report := finish w (Report s1)\<rparr>" by blast
  have "counted (Report ?s)" by (simp add: counted_def NewStress_def NewStressReport_def)
  with m have c: "counted (Report s1)" by (rule merge_all_counted)
  have "Requests (Report s1) = int (length (concat ws))"
    using merge_all_Requests [OF m] by (simp add: NewStress_def NewStressReport_def issued_def)
  with c sp s' show ?thesis by (simp add: counted_def)
qed

theorem report_counts_succeeded_failed_witness:
  "\<exists>s'. Run (world_of example_attempts (\<lambda>x. x))
            (NewStress ''http://localhost:8080'' ''GET'' 2 3 1 True False) = Inr (s', None) \<and>
        Requests (Report s') = 3 \<and>
        Succeeded (Report s') + Failed (Report s') = Requests (Report s') \<and>
        0 \<le> TimedOut (Report s') \<and> TimedOut (Report s') \<le> Failed (Report s')"
proof -
  from example_run [of "\<lambda>x. x"] obtain s' where
    r: "Run (world_of example_attempts (\<lambda>x. x))
          (NewStress ''http://localhost:8080'' ''GET'' 2 3 1 True False) = Inr (s', None)"
    and n: "Requests (Report s') = 3"
    by (auto simp: example_stress_def)
  from report_counts_succeeded_failed [OF r] r n show ?thesis by blast
qed

subsection \<open>Fastest and slowest time\<close>

lemma updateTimes_timed:
  assumes "timed r els" and "el \<noteq> 0" and "0 \<notin> set els"
  shows "timed (updateTimes r el) (els @ [el])"
  using assms
  by (cases "els = []") (auto simp: timed_def updateTimes_slowest updateTimes_fastest)

lemma runRequest_timed:
  assumes "runRequest s a = Inr s'" and "timed (Report s) els"
    and "elapsed a \<noteq> 0" and "0 \<notin> set els"
  shows "timed (Report s') (els @ [elapsed a])"
proof -
  from runRequest_Inr [OF assms(1)] obtain r' where
    u: "updateReport (Report s) (res a) (err a) (elapsed a) = Inr r'" and s': "s' = s\<lparr>Report := r'\<rparr>"
    by blast
  have "timed (updateTimes (Report s) (elapsed a)) (els @ [elapsed a])"
    using assms(2-4) by (rule updateTimes_timed)
  then show ?thesis
    using updateReport_times [OF u] s' by (simp add: timed_def)
qed

lemma merge_all_timed:
  "merge_all s as = Inr s' \<Longrightarrow> timed (Report s) els \<Longrightarrow> 0 \<notin> set els \<Longrightarrow>
     0 \<notin> elapsed ` set as \<Longrightarrow> timed (Report s') (els @ map elapsed as)"
proof (induction as arbitrary: s els)
  case Nil
  then show ?case by simp
next
  case (Cons a as)
  from Cons.prems(1) obtain s1 where
    a: "runRequest s a = Inr s1" and r: "merge_all s1 as = Inr s'"
    by (auto split: sum.splits)
  from Cons.prems(4) have nz: "elapsed a \<noteq> 0" and nzs: "0 \<notin> elapsed ` set as" by auto
  have "timed (Report s1) (els @ [elapsed a])"
    using a Cons.prems(2) nz Cons.prems(3) by (rule runRequest_timed)
  moreover have "0 \<notin> set (els @ [elapsed a])" using nz Cons.prems(3) by simp
  ultimately have "timed (Report s') ((els @ [elapsed a]) @ map elapsed as)"
    using nzs by (intro Cons.IH [OF r])
  then show ?case by simp
qed

text \<open>The slowest time is at least every merged elapsed time, zero or not.\<close>

lemma slowest_bounds_all:
  "merge_all s as = Inr s' \<Longrightarrow> a \<in> set as \<Longrightarrow> elapsed a \<le> SlowestTime (Report s')"
  and "merge_all s as = Inr s' \<Longrightarrow> SlowestTime (Report s) \<le> SlowestTime (Report s')"
proof (induction as arbitrary: s)
  case Nil
  { case 1 then show ?case by simp }
  { case 2 then show ?case by simp }
next
  case (Cons b as)
  { case 1
    from 1(1) obtain s1 where
      b: "runRequest s b = Inr s1" and r: "merge_all s1 as = Inr s'"
      by (auto split: sum.splits)
    from runRequest_Inr [OF b] obtain r' where
      u: "updateReport (Report s) (res b) (err b) (elapsed b) = Inr r'" and s1: "s1 = s\<lparr>Report := r'\<rparr>"
      by blast
    have "elapsed b \<le> SlowestTime (Report s1)"
      using updateReport_times(2) [OF u] s1 by (simp add: updateTimes_slowest)
    with Cons.IH(2) [OF r] Cons.IH(1) [OF r] 1(2) show ?case by auto }
  { case 2
    from 2(1) obtain s1 where
      b: "runRequest s b = Inr s1" and r: "merge_all s1 as = Inr s'"
      by (auto split: sum.splits)
    from runRequest_Inr [OF b] obtain r' where
      u: "updateReport (Report s) (res b) (err b) (elapsed b) = Inr r'" and s1: "s1 = s\<lparr>Report := r'\<rparr>"
      by blast
    have "SlowestTime (Report s) \<le> SlowestTime (Report s1)"
      using updateReport_times(2) [OF u] s1 by (simp add: updateTimes_slowest)
    with Cons.IH(2) [OF r] show ?case by simp }
qed

text \<open>
  When no merged attempt took 0 ms, the fastest time is the least and the slowest time
  the greatest of the elapsed times.
\<close>

lemma times_bound_all_nonzero:
  assumes "merge_all (NewStress url method c n t vt vb) as = Inr s'"
    and "0 \<notin> elapsed ` set as" and "a \<in> set as"
  shows "FastestTime (Report s') \<le> elapsed a \<and> elapsed a \<le> SlowestTime (Report s')"
proof -
  have "timed (Report (NewStress url method c n t vt vb)) []"
    by (simp add: timed_def NewStress_def NewStressReport_def)
  with assms(1) have "timed (Report s') ([] @ map elapsed as)"
    using assms(2) by (intro merge_all_timed) simp_all
  moreover have "as \<noteq> []" using assms(3) by auto
  ultimately show ?thesis using assms(3) by (auto simp: timed_def)
qed

text \<open>
  C2. The claim fails on the code: \<^verbatim>\<open>updateReport\<close> takes \<^verbatim>\<open>FastestTime == 0\<close> for "no time
  recorded yet", so a recorded time of 0 ms is overwritten by the next attempt. A run of
  two requests answered after 0 ms and after 5 ms ends with \<open>FastestTime = 5\<close>, above
  the recorded 0.
\<close>

theorem fastest_time_forgets_zero:
  "\<exists>s'. Run (world_of [responded 200 0, responded 200 5] (\<lambda>x. x))
            (NewStress ''http://localhost:8080'' ''GET'' 1 2 1 True False) = Inr (s', None) \<and>
        FastestTime (Report s') = 5 \<and> SlowestTime (Report s') = 5 \<and>
        \<not> FastestTime (Report s') \<le> elapsed (responded 200 0)"
proof -
  let ?s = "NewStress ''http://localhost:8080'' ''GET'' 1 2 1 True False"
  have sp: "spawn ?s = Inr [[1, 1]]"
    by (simp add: spawn_def NewStress_def worker_calls.simps base_workers.simps
          extra_workers.simps signed_divide_int_def signed_modulo_int_def)
  have iss: "issued (world_of [responded 200 0, responded 200 5] (\<lambda>x. x)) [[1, 1]] =
               [responded 200 0, responded 200 5]"
    by (simp add: issued_def world_of_def upt_rec)
  show ?thesis
    apply (simp add: Run_def run_def sp iss)
    apply (simp add: NewStress_def NewStressReport_def responded_def runRequest_def
             updateReport_def updateTimes_def Let_def)
    done
qed

subsection \<open>Errors of the transport\<close>

lemma quote_in_url_Error: "CHR 0x22 \<in> set (url_Error op quoted inner)"
  by (simp add: url_Error_def)

text \<open>
  No error text of \<^verbatim>\<open>client.Do\<close> is the text of \<^verbatim>\<open>http.ErrHandlerTimeout\<close>, which has no
  double quote in it.
\<close>

lemma url_Error_not_ErrHandlerTimeout: "url_Error op quoted inner \<noteq> ErrHandlerTimeout"
proof
  assume "url_Error op quoted inner = ErrHandlerTimeout"
  then have "CHR 0x22 \<in> set ErrHandlerTimeout"
    using quote_in_url_Error [of op quoted inner] by simp
  then show False by (simp add: ErrHandlerTimeout_def)
qed

lemma not_refused_client_timeout: "\<not> Contains client_timeout_text ''connection refused''"
  by (simp add: client_timeout_text_def url_Error_def)

lemma refused_refused_text: "Contains refused_text ''connection refused''"
  by (simp add: refused_text_def url_Error_def)

text \<open>What one merge does with an error that is not fatal.\<close>

lemma updateReport_error:
  assumes "\<not> Contains e ''connection refused''"
  shows "\<exists>r'. updateReport r rs (Some e) el = Inr r' \<and>
              Requests r' = Requests r + 1 \<and> Succeeded r' = Succeeded r \<and>
              Failed r' = Failed r + 1 \<and>
              TimedOut r' = TimedOut r + (if e = ErrHandlerTimeout then 1 else 0) \<and>
              StatusRequests r' = StatusRequests r"
  using assms by (simp add: updateReport_def Let_def)

text \<open>
  C3. The claim fails on the code: \<^verbatim>\<open>updateReport\<close> recognises a timeout by comparing
  the error text with that of \<^verbatim>\<open>http.ErrHandlerTimeout\<close>, the error of the server-side
  \<^verbatim>\<open>TimeoutHandler\<close>, which \<^verbatim>\<open>client.Do\<close> never returns. For the error of a request that
  ran into the client's timeout the merge increments \<open>Failed\<close> and leaves \<open>TimedOut\<close>
  at zero.
\<close>

theorem client_timeout_not_counted_as_timed_out:
  "\<exists>r'. updateReport NewStressReport None (Some client_timeout_text) 1000 = Inr r' \<and>
        Requests r' = 1 \<and> Failed r' = 1 \<and> TimedOut r' = 0"
proof -
  have ne: "client_timeout_text \<noteq> ErrHandlerTimeout"
    unfolding client_timeout_text_def by (rule url_Error_not_ErrHandlerTimeout)
  from updateReport_error [OF not_refused_client_timeout, of NewStressReport None 1000]
  show ?thesis using ne by (auto simp: NewStressReport_def)
qed

text \<open>With \<^verbatim>\<open>Verbose\<close> off, an error that is not fatal is recorded and the run goes on.\<close>

lemma runRequest_error_quiet:
  assumes "\<not> Verbose s" and "newRequestErr a = None" and "err a = Some e"
    and "\<not> Contains e ''connection refused''"
  shows "\<exists>s'. runRequest s a = Inr s' \<and>
              Requests (Report s') = Requests (Report s) + 1 \<and>
              Failed (Report s') = Failed (Report s) + 1"
  using assms updateReport_error [OF assms(4), of "Report s" "res a" "elapsed a"]
  by (auto simp: runRequest_def)

text \<open>
  C4. The claim fails on the code when \<^verbatim>\<open>Verbose\<close> is on: the verbose line of
  \<^verbatim>\<open>runRequest\<close> reads \<^verbatim>\<open>res.StatusCode\<close> before it looks at \<^verbatim>\<open>err\<close>, and \<^verbatim>\<open>res\<close> is nil
  when the transport failed. The attempt is not recorded and the run stops with a nil
  dereference.
\<close>

theorem verbose_failed_attempt_panics:
  "runRequest (NewStress ''http://localhost:8080'' ''GET'' 1 1 1 True True)
     (failed_with client_timeout_text 1000) = Inl NilDereference \<and>
   Run (world_of [failed_with client_timeout_text 1000] (\<lambda>x. x))
     (NewStress ''http://localhost:8080'' ''GET'' 1 1 1 True True) = Inl NilDereference"
proof -
  let ?s = "NewStress ''http://localhost:8080'' ''GET'' 1 1 1 True True"
  have sp: "spawn ?s = Inr [[1]]"
    by (simp add: spawn_def NewStress_def worker_calls.simps base_workers.simps
          extra_workers.simps signed_divide_int_def signed_modulo_int_def)
  have iss: "issued (world_of [failed_with client_timeout_text 1000] (\<lambda>x. x)) [[1]] =
               [failed_with client_timeout_text 1000]"
    by (simp add: issued_def world_of_def)
  have one: "runRequest ?s (failed_with client_timeout_text 1000) = Inl NilDereference"
    by (simp add: runRequest_def failed_with_def NewStress_def)
  then show ?thesis by (simp add: Run_def run_def sp iss)
qed

subsection \<open>Goroutines under a schedule\<close>

text \<open>Once a goroutine has panicked, the process ends with that panic.\<close>

lemma exec_dying:
  "\<exists>s' pend'. exec w is k s pend (Some q) = (s', pend', Some q)"
  by (induction "is" arbitrary: k s pend) (auto split: sum.splits)

lemma length_concat_update:
  assumes "i < length pend"
  shows "length (concat (pend[i := x])) = length (concat pend) + length x - length (pend ! i)"
  using assms by (simp add: length_concat map_update sum_list_update)

lemma exec_pending_decreases:
  "exec w is k s pend dp = (s', pend', dp') \<Longrightarrow> length (concat pend') \<le> length (concat pend)"
proof (induction "is" arbitrary: k s pend dp)
  case Nil
  then show ?case by simp
next
  case (Cons i "is")
  show ?case
  proof (cases "i < length pend \<and> pend ! i \<noteq> []")
    case False
    with Cons show ?thesis by auto
  next
    case True
    then have i: "i < length pend" and ne: "pend ! i \<noteq> []" by simp_all
    have a: "length (concat (pend[i := tl (pend ! i)])) \<le> length (concat pend)"
      and b: "length (concat (pend[i := []])) \<le> length (concat pend)"
      using i by (simp_all add: length_concat_update)
    show ?thesis
    proof (cases "runRequest s (attempt w k)")
      case (Inl p)
      with Cons.prems True
      have "exec w is (k + 1) s (pend[i := []]) (case dp of None \<Rightarrow> Some p | Some q \<Rightarrow> Some q)
              = (s', pend', dp')" by simp
      from Cons.IH [OF this] b show ?thesis by simp
    next
      case (Inr s1)
      with Cons.prems True
      have "exec w is (k + 1) s1 (pend[i := tl (pend ! i)]) dp = (s', pend', dp')" by simp
      from Cons.IH [OF this] a show ?thesis by simp
    qed
  qed
qed

lemma exec_without_panic:
  assumes "exec w is k s pend None = (s', pend', None)"
  shows "merge_all s (map (attempt w) [k..<k + (length (concat pend) - length (concat pend'))])
           = Inr s'"
  using assms
proof (induction "is" arbitrary: k s pend)
  case Nil
  then show ?case by simp
next
  case (Cons i "is")
  show ?case
  proof (cases "i < length pend \<and> pend ! i \<noteq> []")
    case False
    with Cons show ?thesis by auto
  next
    case True
    then have i: "i < length pend" and ne: "pend ! i \<noteq> []" by simp_all
    show ?thesis
    proof (cases "runRequest s (attempt w k)")
      case (Inl p)
      with Cons.prems True
      have "exec w is (k + 1) s (pend[i := []]) (Some p) = (s', pend', None)" by simp
      with exec_dying [of w "is" "k + 1" s "pend[i := []]" p] show ?thesis by simp
    next
      case (Inr s1)
      let ?pend1 = "pend[i := tl (pend ! i)]"
      from Inr Cons.prems True
      have e: "exec w is (k + 1) s1 ?pend1 None = (s', pend', None)" by simp
      have lt: "0 < length (pend ! i)" using ne by simp
      have "length (pend ! i) \<in> set (map length pend)" using i by simp
      then have "length (pend ! i) \<le> sum_list (map length pend)"
        by (rule member_le_sum_list) simp
      then have le0: "length (pend ! i) \<le> length (concat pend)" by (simp add: length_concat)
      from lt le0 have pos: "0 < length (concat pend)" by (rule less_le_trans)
      have "length (concat ?pend1) =
              length (concat pend) + length (tl (pend ! i)) - length (pend ! i)"
        using i by (rule length_concat_update)
      also have "length (tl (pend ! i)) = length (pend ! i) - 1" by simp
      finally have l1: "length (concat ?pend1) = length (concat pend) - 1"
        using lt le0 by arith
      from exec_pending_decreases [OF e] have le: "length (concat pend') \<le> length (concat ?pend1)" .
      let ?m = "length (concat ?pend1) - length (concat pend')"
      have m: "length (concat pend) - length (concat pend') = Suc ?m"
        using l1 le pos by arith
      from Cons.IH [OF e] have "merge_all s1 (map (attempt w) [k + 1..<k + 1 + ?m]) = Inr s'" .
      then have "merge_all s (attempt w k # map (attempt w) [Suc k..<Suc k + ?m]) = Inr s'"
        using Inr by simp
      moreover have "[k..<k + Suc ?m] = k # [Suc k..<Suc k + ?m]"
        by (simp add: upt_rec)
      ultimately show ?thesis by (simp only: m list.map)
    qed
  qed
qed

text \<open>
  A run under a schedule in which no goroutine panics is a run of the sequential model,
  whatever the schedule is.
\<close>

lemma Run_scheduled_without_panic:
  assumes "returned (Run_scheduled w sched main_first s) = Some e"
    and "died (Run_scheduled w sched main_first s) = None"
  shows "Run w s = Inr (final (Run_scheduled w sched main_first s), e)"
proof (cases "spawn s")
  case (Inl p)
  with assms show ?thesis by (simp add: Run_scheduled_def)
next
  case (Inr ws)
  obtain s' pend dp where x: "exec w sched 0 s ws None = (s', pend, dp)"
    by (cases "exec w sched 0 s ws None") auto
  from assms Inr x have dp: "dp = None" and fin: "concat pend = []" and e: "e = None"
    and f: "final (Run_scheduled w sched main_first s) = s'\<lparr>Report := finish w (Report s')\<rparr>"
    by (auto simp: Run_scheduled_def split: if_splits)
  from exec_without_panic [OF x [unfolded dp]] fin
  have "merge_all s (issued w ws) = Inr s'" by (simp add: issued_def)
  with Inr e f show ?thesis by (simp add: Run_def run_def)
qed

text \<open>Under every schedule, an error result of \<^verbatim>\<open>Run\<close> is nil.\<close>

lemma Run_scheduled_returns_nil:
  "returned (Run_scheduled w sched main_first s) = Some e \<Longrightarrow> e = None"
  by (auto simp: Run_scheduled_def split: sum.splits prod.splits if_splits)

subsection \<open>Connection refused\<close>

lemma runRequest_refused_panic:
  assumes "newRequestErr a = None" and "err a = Some e" and "Contains e ''connection refused''"
  shows "runRequest s a = Inl (if Verbose s \<and> res a = None then NilDereference else PanicErr e)"
  using assms by (simp add: runRequest_def updateReport_def)

text \<open>
  A single request that is refused: the goroutine panics, its deferred \<^verbatim>\<open>wg.Done()\<close>
  lets \<^verbatim>\<open>wg.Wait()\<close> through, and \<^verbatim>\<open>Run\<close> can return nil, with nothing counted, before
  the process has ended.
\<close>

lemma single_refused_request_returns:
  "died (Run_scheduled (world_of [failed_with refused_text 1] id) [0] True
           (NewStress ''http://localhost:8080'' ''GET'' 1 1 1 True False))
     = Some (PanicErr refused_text) \<and>
   returned (Run_scheduled (world_of [failed_with refused_text 1] id) [0] True
           (NewStress ''http://localhost:8080'' ''GET'' 1 1 1 True False))
     = Some None \<and>
   tally (Inr (Report (final
      (Run_scheduled (world_of [failed_with refused_text 1] id) [0] True
           (NewStress ''http://localhost:8080'' ''GET'' 1 1 1 True False)))))
     = Some (0, 0, 0, 0)"
proof -
  let ?w = "world_of [failed_with refused_text 1] id"
  let ?s = "NewStress ''http://localhost:8080'' ''GET'' 1 1 1 True False"
  have sp: "spawn ?s = Inr [[1]]"
    by (simp add: spawn_def NewStress_def worker_calls.simps base_workers.simps
          extra_workers.simps signed_divide_int_def signed_modulo_int_def)
  have a0: "attempt ?w 0 = failed_with refused_text 1"
    by (simp add: world_of_def)
  have r0: "runRequest ?s (failed_with refused_text 1) = Inl (PanicErr refused_text)"
    using runRequest_refused_panic [of "failed_with refused_text 1" refused_text ?s]
      refused_refused_text
    by (simp add: failed_with_def NewStress_def)
  have x: "exec ?w [0] 0 ?s [[1]] None = (?s, [[]], Some (PanicErr refused_text))"
    by (simp add: a0 r0)
  show ?thesis
    by (simp only: Run_scheduled_def sp sum.case x)
       (simp add: tally_def NewStress_def NewStressReport_def)
qed

text \<open>
  C5, as the claim states it, fails on the code: the run does not stop at once, and a
  further request can complete normally. Two goroutines with one request each; the first
  is refused and panics, the deferred \<^verbatim>\<open>s.mu.Unlock()\<close> lets the second, answered with
  200, merge its outcome (\<open>Requests = 1\<close>, \<open>Succeeded = 1\<close>), and \<^verbatim>\<open>Run\<close> returns nil
  before the process has ended.
\<close>

theorem later_request_merged_after_refusal:
  "died (Run_scheduled (world_of [failed_with refused_text 1, responded 200 12] id) [0, 1] True
           (NewStress ''http://localhost:8080'' ''GET'' 2 2 1 True False))
     = Some (PanicErr refused_text) \<and>
   returned (Run_scheduled (world_of [failed_with refused_text 1, responded 200 12] id) [0, 1] True
           (NewStress ''http://localhost:8080'' ''GET'' 2 2 1 True False))
     = Some None \<and>
   tally (Inr (Report (final
      (Run_scheduled (world_of [failed_with refused_text 1, responded 200 12] id) [0, 1] True
           (NewStress ''http://localhost:8080'' ''GET'' 2 2 1 True False)))))
     = Some (1, 1, 0, 0)"
proof -
  let ?w = "world_of [failed_with refused_text 1, responded 200 12] id"
  let ?s = "NewStress ''http://localhost:8080'' ''GET'' 2 2 1 True False"
  have sp: "spawn ?s = Inr [[1], [2]]"
    by (simp add: spawn_def NewStress_def worker_calls.simps base_workers.simps
          extra_workers.simps signed_divide_int_def signed_modulo_int_def)
  have a0: "attempt ?w 0 = failed_with refused_text 1"
    and a1: "attempt ?w (Suc 0) = responded 200 12"
    by (simp_all add: world_of_def)
  have r0: "runRequest ?s (failed_with refused_text 1) = Inl (PanicErr refused_text)"
    using runRequest_refused_panic [of "failed_with refused_text 1" refused_text ?s]
      refused_refused_text
    by (simp add: failed_with_def NewStress_def)
  have r1: "runRequest ?s (responded 200 12) =
              Inr (?s\<lparr>Report := NewStressReport\<lparr>Succeeded := 1, Requests := 1,
                     FastestTime := 12, SlowestTime := 12,
                     StatusRequests := [200 \<mapsto> 1]\<rparr>\<rparr>)"
    by (simp add: runRequest_def updateReport_def updateTimes_def bump_def responded_def
          NewStress_def NewStressReport_def Let_def)
  have x: "exec ?w [0, 1] 0 ?s [[1], [2]] None =
             (?s\<lparr>Report := NewStressReport\<lparr>Succeeded := 1, Requests := 1,
                     FastestTime := 12, SlowestTime := 12,
                     StatusRequests := [200 \<mapsto> 1]\<rparr>\<rparr>, [[], []], Some (PanicErr refused_text))"
    by (simp add: a0 a1 r0 r1)
  show ?thesis
    by (simp only: Run_scheduled_def sp sum.case x)
       (simp add: tally_def NewStressReport_def)
qed

text \<open>
  C5, amended. A request whose transport attempt is refused is never recorded:
  \<^verbatim>\<open>updateReport\<close> panics with the error before it changes a counter, whatever the
  report, the response and the elapsed time are, and \<^verbatim>\<open>runRequest\<close> panics with it (with
  \<^verbatim>\<open>Verbose\<close> on and a nil response, with the nil dereference of the verbose line before
  it). The receiver stays as it was, the goroutine makes no further call, and the process
  is bound to end with a panic, this one if it is the first, whatever the other
  goroutines still do.
\<close>

theorem connection_refused_panics_unrecorded:
  assumes "newRequestErr a = None" and "err a = Some e"
    and "Contains e ''connection refused''"
    and "attempt w k = a" and "i < length pend" and "pend ! i \<noteq> []"
  shows "(\<forall>r rs el. updateReport r rs (Some e) el = Inl (PanicErr e)) \<and>
         runRequest s a =
           Inl (if Verbose s \<and> res a = None then NilDereference else PanicErr e) \<and>
         exec w (i # rest) k s pend dp =
           exec w rest (k + 1) s (pend[i := []])
             (Some (case dp of
                      None \<Rightarrow> if Verbose s \<and> res a = None then NilDereference else PanicErr e
                    | Some q \<Rightarrow> q)) \<and>
         (\<exists>s2 pend2. exec w (i # rest) k s pend dp =
             (s2, pend2,
              Some (case dp of
                      None \<Rightarrow> if Verbose s \<and> res a = None then NilDereference else PanicErr e
                    | Some q \<Rightarrow> q)))"
proof -
  let ?p = "if Verbose s \<and> res a = None then NilDereference else PanicErr e"
  let ?d = "case dp of None \<Rightarrow> ?p | Some q \<Rightarrow> q"
  have u: "\<forall>r rs el. updateReport r rs (Some e) el = Inl (PanicErr e)"
    using assms(3) by (simp add: updateReport_def)
  have r: "runRequest s a = Inl ?p"
    using assms(1-3) by (rule runRequest_refused_panic)
  have x: "exec w (i # rest) k s pend dp = exec w rest (k + 1) s (pend[i := []]) (Some ?d)"
    using assms(4-6) r by (cases dp) simp_all
  from exec_dying [of w rest "k + 1" s "pend[i := []]" ?d] x
  have "\<exists>s2 pend2. exec w (i # rest) k s pend dp = (s2, pend2, Some ?d)" by simp
  with u r x show ?thesis by blast
qed

theorem connection_refused_panics_unrecorded_witness:
  "newRequestErr (failed_with refused_text 1) = None \<and>
   err (failed_with refused_text 1) = Some refused_text \<and>
   Contains refused_text ''connection refused'' \<and>
   attempt (world_of [failed_with refused_text 1, responded 200 12] id) 0
     = failed_with refused_text 1 \<and>
   (0::nat) < length [[1], [2::int]] \<and> [[1], [2::int]] ! 0 \<noteq> [] \<and>
   runRequest (NewStress ''http://localhost:8080'' ''GET'' 2 2 1 True False)
     (failed_with refused_text 1) = Inl (PanicErr refused_text) \<and>
   (\<exists>s2 pend2.
      exec (world_of [failed_with refused_text 1, responded 200 12] id) [0, 1] 0
        (NewStress ''http://localhost:8080'' ''GET'' 2 2 1 True False) [[1], [2]] None =
      (s2, pend2, Some (PanicErr refused_text)))"
proof -
  let ?a = "failed_with refused_text 1"
  let ?w = "world_of [failed_with refused_text 1, responded 200 12] id"
  let ?s = "NewStress ''http://localhost:8080'' ''GET'' 2 2 1 True False"
  have h1: "newRequestErr ?a = None" and h2: "err ?a = Some refused_text"
    by (simp_all add: failed_with_def)
  have h4: "attempt ?w 0 = ?a" by (simp add: world_of_def)
  have h5: "(0::nat) < length [[1], [2::int]]" and h6: "[[1], [2::int]] ! 0 \<noteq> []"
    by simp_all
  have v: "\<not> (Verbose ?s \<and> res ?a = None)" by (simp add: NewStress_def)
  have p: "(if Verbose ?s \<and> res ?a = None then NilDereference else PanicErr refused_text)
             = PanicErr refused_text"
    using v by (simp only: if_False)
  note t = connection_refused_panics_unrecorded
             [OF h1 h2 refused_refused_text h4 h5 h6, of ?s "[1]" None, unfolded option.case p]
  from t have "runRequest ?s ?a = Inl (PanicErr refused_text)"
    and "\<exists>s2 pend2. exec ?w [0, 1] 0 ?s [[1], [2]] None = (s2, pend2, Some (PanicErr refused_text))"
    by blast+
  with h1 h2 refused_refused_text h4 h5 h6 show ?thesis by blast
qed

subsection \<open>The partition of the requests\<close>

lemma worker_calls_eq:
  "worker_calls s g j = replicate (nat (TotalRequests s sdiv Concurrency s - j)) g"
proof (induction s g j rule: worker_calls.induct)
  case (1 s g j)
  show ?case
  proof (cases "j < TotalRequests s sdiv Concurrency s")
    case True
    then have "nat (TotalRequests s sdiv Concurrency s - j) =
               Suc (nat (TotalRequests s sdiv Concurrency s - (j + 1)))" by simp
    with True 1 show ?thesis by (subst worker_calls.simps) simp
  next
    case False
    then show ?thesis by (subst worker_calls.simps) simp
  qed
qed

lemma base_workers_eq:
  "base_workers s i = map (\<lambda>k. worker_calls s (k + 1) 0) [i..Concurrency s - 1]"
proof (induction s i rule: base_workers.induct)
  case (1 s i)
  show ?case
  proof (cases "i < Concurrency s")
    case True
    with 1 show ?thesis by (subst base_workers.simps) (simp add: upto_rec1 [of i])
  next
    case False
    then show ?thesis by (subst base_workers.simps) simp
  qed
qed


lemma extra_workers_eq:
  "extra_workers s i = map (\<lambda>k. [k + 1]) [i..TotalRequests s smod Concurrency s - 1]"
proof (induction s i rule: extra_workers.induct)
  case (1 s i)
  show ?case
  proof (cases "i < TotalRequests s smod Concurrency s")
    case True
    with 1 show ?thesis by (subst extra_workers.simps) (simp add: upto_rec1 [of i])
  next
    case False
    then show ?thesis by (subst extra_workers.simps) simp
  qed
qed

lemma map_length_base_workers:
  "map length (base_workers s 0) =
     replicate (nat (Concurrency s)) (nat (TotalRequests s sdiv Concurrency s))"
  by (simp add: base_workers_eq worker_calls_eq o_def map_replicate_const length_upto)

lemma map_length_extra_workers:
  "map length (extra_workers s 0) = replicate (nat (TotalRequests s smod Concurrency s)) 1"
  by (simp add: extra_workers_eq o_def map_replicate_const length_upto)

lemma length_concat_spawned:
  "length (concat (base_workers s 0 @ extra_workers s 0)) =
     nat (Concurrency s) * nat (TotalRequests s sdiv Concurrency s) +
     nat (TotalRequests s smod Concurrency s)"
  by (simp add: length_concat map_length_base_workers map_length_extra_workers sum_list_replicate)



text \<open>
  A request count below zero, which the type \<^verbatim>\<open>int\<close> admits, starts \<open>Concurrency\<close>
  goroutines that make no call.
\<close>

lemma negative_count_issues_nothing:
  assumes "0 < Concurrency s" and "TotalRequests s < 0"
  shows "spawn s = Inr (base_workers s 0 @ extra_workers s 0) \<and>
         concat (base_workers s 0 @ extra_workers s 0) = []"
proof -
  let ?c = "Concurrency s" and ?n = "TotalRequests s"
  have "?n sdiv ?c = - (\<bar>?n\<bar> div ?c)" and "?n smod ?c = - (\<bar>?n\<bar> mod ?c)"
    using assms by (simp_all add: signed_divide_int_def signed_modulo_int_def)
  moreover have "0 \<le> \<bar>?n\<bar> div ?c" and "0 \<le> \<bar>?n\<bar> mod ?c"
    using assms by (simp_all add: pos_imp_zdiv_nonneg_iff)
  ultimately have "nat (?n sdiv ?c) = 0" and "nat (?n smod ?c) = 0" by simp_all
  then have "length (concat (base_workers s 0 @ extra_workers s 0)) = 0"
    by (simp only: length_concat_spawned)
  then show ?thesis using assms by (simp add: spawn_def)
qed




subsection \<open>Status codes\<close>

text \<open>
  C7, as the claim states it, fails on the code: a response with status 201 increments
  \<open>Failed\<close> and leaves \<open>Succeeded\<close> as it is.
\<close>

theorem status_201_counted_as_failed:
  "tally (updateReport NewStressReport (Some 201) None 7) = Some (1, 0, 1, 0)"
  by (simp add: tally_def updateReport_def NewStressReport_def Let_def)

text \<open>
  C7, amended. In the merge step, \<^verbatim>\<open>updateReport\<close>, on a report whose counters are below
  the greatest \<^verbatim>\<open>int\<close>: a response is counted as succeeded exactly when its status code
  is 200, and as failed for every other code, 2xx or not; an error that is not
  connection-refused is counted as failed.
\<close>

theorem succeeded_only_for_200:
  assumes "Succeeded r < 2 ^ 63 - 1" and "Failed r < 2 ^ 63 - 1"
  shows "(\<exists>r'. updateReport r (Some code) None el = Inr r' \<and>
         Succeeded r' = Succeeded r + (if code = 200 then 1 else 0) \<and>
         Failed r' = Failed r + (if code = 200 then 0 else 1) \<and>
         Succeeded r' < 2 ^ 63 \<and> Failed r' < 2 ^ 63) \<and>
   (\<not> Contains e ''connection refused'' \<longrightarrow>
      (\<exists>r'. updateReport r rs (Some e) el = Inr r' \<and>
            Succeeded r' = Succeeded r \<and> Failed r' = Failed r + 1 \<and> Failed r' < 2 ^ 63))"
proof (intro conjI impI)
  show "\<exists>r'. updateReport r (Some code) None el = Inr r' \<and>
         Succeeded r' = Succeeded r + (if code = 200 then 1 else 0) \<and>
         Failed r' = Failed r + (if code = 200 then 0 else 1) \<and>
         Succeeded r' < 2 ^ 63 \<and> Failed r' < 2 ^ 63"
    using assms by (simp add: updateReport_def Let_def)
next
  assume "\<not> Contains e ''connection refused''"
  from updateReport_error [OF this, of r rs el] assms(2)
  show "\<exists>r'. updateReport r rs (Some e) el = Inr r' \<and>
            Succeeded r' = Succeeded r \<and> Failed r' = Failed r + 1 \<and> Failed r' < 2 ^ 63"
    by auto
qed

theorem succeeded_only_for_200_witness:
  "Succeeded NewStressReport < 2 ^ 63 - 1 \<and> Failed NewStressReport < 2 ^ 63 - 1 \<and>
   \<not> Contains ''EOF'' ''connection refused'' \<and>
   (\<exists>r'. updateReport NewStressReport (Some 204) None 7 = Inr r' \<and>
         Succeeded r' = 0 \<and> Failed r' = 1) \<and>
   (\<exists>r'. updateReport NewStressReport (Some 200) None 7 = Inr r' \<and>
         Succeeded r' = 1 \<and> Failed r' = 0) \<and>
   (\<exists>r'. updateReport NewStressReport None (Some ''EOF'') 7 = Inr r' \<and>
         Succeeded r' = 0 \<and> Failed r' = 1)"
proof -
  have s: "Succeeded NewStressReport < 2 ^ 63 - 1" and f: "Failed NewStressReport < 2 ^ 63 - 1"
    by (simp_all add: NewStressReport_def)
  have h: "\<not> Contains ''EOF'' ''connection refused''" by simp
  have a: "\<exists>r'. updateReport NewStressReport (Some 204) None 7 = Inr r' \<and>
         Succeeded r' = 0 \<and> Failed r' = 1"
    using succeeded_only_for_200 [OF s f, of 204 7 "''EOF''" None]
    by (auto simp: NewStressReport_def)
  have b: "\<exists>r'. updateReport NewStressReport (Some 200) None 7 = Inr r' \<and>
         Succeeded r' = 1 \<and> Failed r' = 0"
    using succeeded_only_for_200 [OF s f, of 200 7 "''EOF''" None]
    by (auto simp: NewStressReport_def)
  have c: "\<exists>r'. updateReport NewStressReport None (Some ''EOF'') 7 = Inr r' \<and>
         Succeeded r' = 0 \<and> Failed r' = 1"
    using succeeded_only_for_200 [OF s f, of 204 7 "''EOF''" None] h
    by (auto simp: NewStressReport_def)
  from s f h a b c show ?thesis by blast
qed

subsection \<open>The histogram\<close>

lemma bump_eq: "bump m c = m(c \<mapsto> (case m c of None \<Rightarrow> 1 | Some v \<Rightarrow> v + 1))"
  by (auto simp: bump_def Let_def split: option.splits)

lemma dom_bump: "dom (bump m c) = insert c (dom m)"
  by (simp add: bump_eq)

lemma hist_total_bump:
  assumes "finite (dom m)"
  shows "hist_total (bump m c) = hist_total m + 1"
proof (cases "m c")
  case None
  then have "c \<notin> dom m" by (simp add: domIff)
  then have "(\<Sum>k\<in>dom m. the ((m(c \<mapsto> 1)) k)) = (\<Sum>k\<in>dom m. the (m k))"
    by (intro sum.cong) auto
  with None assms \<open>c \<notin> dom m\<close> show ?thesis
    by (simp add: hist_total_def bump_eq)
next
  case (Some v)
  then have c: "c \<in> dom m" by (simp add: domIff)
  then have d: "insert c (dom m) = dom m" by blast
  have "(\<Sum>k\<in>dom m. the ((m(c \<mapsto> v + 1)) k)) =
          the ((m(c \<mapsto> v + 1)) c) + (\<Sum>k\<in>dom m - {c}. the ((m(c \<mapsto> v + 1)) k))"
    using assms c by (rule sum.remove)
  also have "(\<Sum>k\<in>dom m - {c}. the ((m(c \<mapsto> v + 1)) k)) = (\<Sum>k\<in>dom m - {c}. the (m k))"
    by (intro sum.cong) auto
  finally have "(\<Sum>k\<in>dom m. the ((m(c \<mapsto> v + 1)) k)) = v + 1 + (\<Sum>k\<in>dom m - {c}. the (m k))"
    by simp
  moreover have "(\<Sum>k\<in>dom m. the (m k)) = the (m c) + (\<Sum>k\<in>dom m - {c}. the (m k))"
    using assms c by (rule sum.remove)
  ultimately show ?thesis
    using Some by (simp add: hist_total_def bump_eq d)
qed

lemma runRequest_hist_ok:
  assumes "runRequest s a = Inr s'" and "hist_ok (Report s) n"
  shows "hist_ok (Report s') (n + (if answered a then 1 else 0))"
proof -
  from runRequest_Inr [OF assms(1)] obtain r' where
    u: "updateReport (Report s) (res a) (err a) (elapsed a) = Inr r'" and s': "s' = s\<lparr>Report := r'\<rparr>"
    by blast
  show ?thesis
    using assms(2) updateReport_histogram [OF u] s'
    by (cases "err a") (simp_all add: hist_ok_def answered_def hist_total_bump dom_bump)
qed

lemma merge_all_hist_ok:
  "merge_all s as = Inr s' \<Longrightarrow> hist_ok (Report s) n \<Longrightarrow>
     hist_ok (Report s') (n + int (length (filter answered as)))"
proof (induction as arbitrary: s n)
  case Nil
  then show ?case by simp
next
  case (Cons a as)
  from Cons.prems(1) obtain s1 where
    a: "runRequest s a = Inr s1" and r: "merge_all s1 as = Inr s'"
    by (auto split: sum.splits)
  from Cons.IH [OF r runRequest_hist_ok [OF a Cons.prems(2)]]
  show ?case by (cases "answered a") (simp_all add: add.assoc)
qed

text \<open>
  C8. Only an attempt that came back with a response changes the histogram, and it adds
  one to one bucket; so, whenever \<^verbatim>\<open>Run\<close> returns, the buckets sum to the number of
  attempts that were answered with a status code.
\<close>

theorem histogram_counts_answered:
  assumes "Run w (NewStress url method c n t vt vb) = Inr (s', e)"
  shows "\<exists>ws. spawn (NewStress url method c n t vt vb) = Inr ws \<and>
              finite (dom (StatusRequests (Report s'))) \<and>
              hist_total (StatusRequests (Report s')) =
                int (length (filter answered (issued w ws)))"
proof -
  let ?s = "NewStress url method c n t vt vb"
  from Run_Inr [OF assms] obtain ws s1 where
    sp: "spawn ?s = Inr ws" and m: "merge_all ?s (issued w ws) = Inr s1"
    and s': "s' = s1\<lparr>Report := finish w (Report s1)\<rparr>" by blast
  have "hist_ok (Report ?s) 0"
    by (simp add: hist_ok_def hist_total_def NewStress_def NewStressReport_def)
  with m have "hist_ok (Report s1) (0 + int (length (filter answered (issued w ws))))"
    by (rule merge_all_hist_ok)
  with sp s' show ?thesis by (simp add: hist_ok_def)
qed

theorem histogram_counts_answered_witness:
  "\<exists>s'. Run (world_of example_attempts (\<lambda>x. x))
            (NewStress ''http://localhost:8080'' ''GET'' 2 3 1 True False) = Inr (s', None) \<and>
        StatusRequests (Report s') = [200 \<mapsto> 1, 500 \<mapsto> 1] \<and>
        hist_total (StatusRequests (Report s')) = 2 \<and>
        length (filter answered (issued (world_of example_attempts (\<lambda>x. x)) [[1], [2], [1]])) = 2"
proof -
  let ?w = "world_of example_attempts (\<lambda>x. x)"
  let ?s = "NewStress ''http://localhost:8080'' ''GET'' 2 3 1 True False"
  from example_run [of "\<lambda>x. x"] obtain s' where
    r: "Run ?w ?s = Inr (s', None)"
    and h: "StatusRequests (Report s') = [200 \<mapsto> 1, 500 \<mapsto> 1]"
    by (auto simp: example_stress_def)
  from histogram_counts_answered [OF r] obtain ws where
    sp: "spawn ?s = Inr ws"
    and t: "hist_total (StatusRequests (Report s')) = int (length (filter answered (issued ?w ws)))"
    by blast
  from sp example_spawn have ws: "ws = [[1], [2], [1]]" by (simp add: example_stress_def)
  have n: "length (filter answered (issued ?w [[1], [2], [1]])) = 2"
    by (simp only: example_issued)
       (simp add: example_attempts_def answered_def responded_def failed_with_def)
  from t ws n have "hist_total (StatusRequests (Report s')) = 2" by simp
  with r h n show ?thesis by blast
qed

subsection \<open>The percentages\<close>

lemma normal_range:
  fixes x :: real
  assumes "1 / 2 ^ 66 \<le> x" and "x \<le> 2 ^ 73"
  shows "1 / 2 ^ 1022 \<le> \<bar>x\<bar> \<and> \<bar>x\<bar> \<le> 2 ^ 1023"
proof -
  have "(1::real) / 2 ^ 1022 \<le> 1 / 2 ^ 66"
    by (intro divide_left_mono power_increasing) simp_all
  moreover have "(2::real) ^ 73 \<le> 2 ^ 1023"
    by (intro power_increasing) simp_all
  moreover have "0 < x" using assms(1) by (rule less_le_trans [rotated]) simp
  ultimately show ?thesis using assms by simp
qed

lemma rounds_within_zero: "rounds_within u rnd \<Longrightarrow> rnd 0 = 0"
  unfolding rounds_within_def by (drule spec [of _ 0]) simp

lemma rounds_within_bounds:
  assumes "rounds_within u rnd" and "1 / 2 ^ 66 \<le> x" and "x \<le> 2 ^ 73"
  shows "(1 - u) * x \<le> rnd x \<and> rnd x \<le> (1 + u) * x"
proof -
  have pos: "0 < x" using assms(2) by (rule less_le_trans [rotated]) simp
  from assms(1) normal_range [OF assms(2,3)] have "\<bar>rnd x - x\<bar> \<le> u * \<bar>x\<bar>"
    unfolding rounds_within_def by blast
  with pos show ?thesis by (simp add: abs_le_iff algebra_simps)
qed


lemma rounded_count:
  fixes n :: int
  assumes rw: "rounds_within u rnd" and u0: "0 \<le> u" and u1: "u \<le> 1 / 2"
    and n0: "0 < n" and nb: "n < 2 ^ 63"
  shows "(1 - u) * real_of_int n \<le> rnd (real_of_int n)"
    and "rnd (real_of_int n) \<le> (1 + u) * real_of_int n"
    and "1 / 2 \<le> rnd (real_of_int n)"
    and "rnd (real_of_int n) \<le> 2 ^ 64"
proof -
  let ?x = "real_of_int n"
  have x1: "1 \<le> ?x" using n0 by simp
  have "n \<le> 2 ^ 63" using nb by simp
  then have "?x \<le> real_of_int (2 ^ 63)" by (simp only: of_int_le_iff)
  then have xb: "?x \<le> 2 ^ 63" by simp
  have "1 / 2 ^ 66 \<le> ?x" using x1 by (rule order_trans [rotated]) simp
  moreover have "?x \<le> 2 ^ 73" using xb by (rule order_trans) simp
  ultimately have b: "(1 - u) * ?x \<le> rnd ?x \<and> rnd ?x \<le> (1 + u) * ?x"
    by (rule rounds_within_bounds [OF rw])
  then show "(1 - u) * ?x \<le> rnd ?x" and "rnd ?x \<le> (1 + u) * ?x" by simp_all
  have "1 / 2 * 1 \<le> (1 - u) * ?x"
    using u1 x1 by (intro mult_mono) simp_all
  with b show "1 / 2 \<le> rnd ?x" by simp
  have "(1 + u) * ?x \<le> 2 * 2 ^ 63"
    using u0 u1 xb x1 by (intro mult_mono) simp_all
  with b show "rnd ?x \<le> 2 ^ 64" by simp
qed

lemma percentage_bounds:
  fixes a r :: int and u :: real
  assumes rw: "rounds_within u rnd" and u0: "0 \<le> u" and u1: "u \<le> 1 / 2"
    and a0: "0 \<le> a" and ar: "a \<le> r" and r0: "0 < r" and rb: "r < 2 ^ 63"
  defines "p \<equiv> rnd (rnd (rnd (real_of_int a) / rnd (real_of_int r)) * 100)"
  shows "100 * (real_of_int a / real_of_int r) * ((1 - u) ^ 3 / (1 + u)) \<le> p"
    and "p \<le> 100 * (real_of_int a / real_of_int r) * ((1 + u) ^ 3 / (1 - u))"
proof -
  let ?a = "real_of_int a" and ?r = "real_of_int r"
  let ?A = "rnd ?a" and ?R = "rnd ?r"
  let ?Q = "?A / ?R"
  let ?D = "rnd ?Q"
  let ?M = "?D * 100"
  note R = rounded_count [OF rw u0 u1 r0 rb]
  have both: "100 * (?a / ?r) * ((1 - u) ^ 3 / (1 + u)) \<le> p \<and>
              p \<le> 100 * (?a / ?r) * ((1 + u) ^ 3 / (1 - u))"
  proof (cases "a = 0")
    case True
    then show ?thesis by (simp add: p_def rounds_within_zero [OF rw])
  next
    case False
    with a0 have apos: "0 < a" by simp
    from ar rb have ab: "a < 2 ^ 63" by simp
    note A = rounded_count [OF rw u0 u1 apos ab]
    have rpos: "0 < ?r" and apos': "0 < ?a" using r0 apos by simp_all
    have Rpos: "0 < ?R" using R(3) by simp
    have Apos: "0 \<le> ?A" using A(3) by simp
    have um: "0 < 1 - u" and up: "0 < 1 + u" using u0 u1 by simp_all
    have Qlo: "(1 - u) * ?a / ((1 + u) * ?r) \<le> ?Q"
      using A(1) R(2) Rpos Apos um up apos' by (intro frac_le) simp_all
    have Qhi: "?Q \<le> (1 + u) * ?a / ((1 - u) * ?r)"
      using A(2) R(1) Apos Rpos um up rpos apos' by (intro frac_le) simp_all
    have "(1 / 2) / 2 ^ 64 \<le> ?Q"
      using A(3) R(4) Rpos Apos by (intro frac_le) simp_all
    then have Q1: "1 / 2 ^ 65 \<le> ?Q" by simp
    have "?Q \<le> 2 ^ 64 / (1 / 2)"
      using A(4) R(3) Apos Rpos by (intro frac_le) simp_all
    then have Q2: "?Q \<le> 2 ^ 65" by simp
    have Qpos: "0 < ?Q" using Q1 by (rule less_le_trans [rotated]) simp
    have "1 / 2 ^ 66 \<le> ?Q" using Q1 by (rule order_trans [rotated]) simp
    moreover have "?Q \<le> 2 ^ 73" using Q2 by (rule order_trans) simp
    ultimately have D: "(1 - u) * ?Q \<le> ?D \<and> ?D \<le> (1 + u) * ?Q"
      by (rule rounds_within_bounds [OF rw])
    from D have Dlo: "(1 - u) * ?Q \<le> ?D" by (rule conjunct1)
    from D have Dhi: "?D \<le> (1 + u) * ?Q" by (rule conjunct2)
    have "(1::real) / 2 ^ 66 = 1 / 2 * (1 / 2 ^ 65)" by simp
    also have "\<dots> \<le> (1 - u) * ?Q"
      using u1 Q1 by (intro mult_mono) simp_all
    also note Dlo
    finally have D1: "1 / 2 ^ 66 \<le> ?D" .
    note Dhi
    also have "(1 + u) * ?Q \<le> 2 * 2 ^ 65"
      using u0 u1 Q2 Qpos by (intro mult_mono) simp_all
    also have "(2::real) * 2 ^ 65 = 2 ^ 66" by simp
    finally have D2: "?D \<le> 2 ^ 66" .
    have Dpos: "0 < ?D" using D1 by (rule less_le_trans [rotated]) simp
    have "?D * 1 \<le> ?M" using Dpos by (intro mult_left_mono) simp_all
    with D1 have M1: "1 / 2 ^ 66 \<le> ?M" by linarith
    have "?M \<le> 2 ^ 66 * 100" using D2 by (intro mult_right_mono) simp_all
    also have "\<dots> \<le> (2::real) ^ 73" by simp
    finally have M2: "?M \<le> 2 ^ 73" .
    have P: "(1 - u) * ?M \<le> p \<and> p \<le> (1 + u) * ?M"
      unfolding p_def using M1 M2 by (rule rounds_within_bounds [OF rw])
    from P have Plo: "(1 - u) * ?M \<le> p" by (rule conjunct1)
    from P have Phi: "p \<le> (1 + u) * ?M" by (rule conjunct2)
    have "100 * (?a / ?r) * ((1 - u) ^ 3 / (1 + u)) =
            (1 - u) * (((1 - u) * ((1 - u) * ?a / ((1 + u) * ?r))) * 100)"
      using up rpos by (simp add: power3_eq_cube field_simps)
    also have "\<dots> \<le> (1 - u) * (((1 - u) * ?Q) * 100)"
      using Qlo um by (intro mult_left_mono mult_right_mono) simp_all
    also have "\<dots> \<le> (1 - u) * ?M"
      using Dlo um by (intro mult_left_mono mult_right_mono) simp_all
    also note Plo
    finally have lower: "100 * (?a / ?r) * ((1 - u) ^ 3 / (1 + u)) \<le> p" .
    note Phi
    also have "(1 + u) * ?M \<le> (1 + u) * (((1 + u) * ?Q) * 100)"
      using Dhi up by (intro mult_left_mono mult_right_mono) simp_all
    also have "\<dots> \<le> (1 + u) * (((1 + u) * ((1 + u) * ?a / ((1 - u) * ?r))) * 100)"
      using Qhi up by (intro mult_left_mono mult_right_mono) simp_all
    also have "\<dots> = 100 * (?a / ?r) * ((1 + u) ^ 3 / (1 - u))"
      using um rpos by (simp add: power3_eq_cube field_simps)
    finally have "p \<le> 100 * (?a / ?r) * ((1 + u) ^ 3 / (1 - u))" .
    with lower show ?thesis by (rule conjI)
  qed
  from both show "100 * (?a / ?r) * ((1 - u) ^ 3 / (1 + u)) \<le> p" by (rule conjunct1)
  from both show "p \<le> 100 * (?a / ?r) * ((1 + u) ^ 3 / (1 - u))" by (rule conjunct2)
qed

lemma finish_percentages:
  assumes "rounding w (real_of_int (Requests r)) \<noteq> 0"
  shows "PercentageSucceeded (finish w r) =
           Float (rounding w (rounding w (rounding w (real_of_int (Succeeded r)) /
                                          rounding w (real_of_int (Requests r))) * 100))"
    and "PercentageFailed (finish w r) =
           Float (rounding w (rounding w (rounding w (real_of_int (Failed r)) /
                                          rounding w (real_of_int (Requests r))) * 100))"
  using assms by (simp_all add: finish_def Let_def float64_of_int_def fdiv_def fmul_def)

text \<open>The two bounds of the sum for the rounding error of binary64.\<close>

lemma binary64_tolerance:
  "100 - 5 / 10 ^ 14 < 100 * ((1 - 1 / 2 ^ 53) ^ 3 / (1 + 1 / 2 ^ 53 :: real)) \<and>
   100 * ((1 + 1 / 2 ^ 53) ^ 3 / (1 - 1 / 2 ^ 53 :: real)) < 100 + 5 / 10 ^ 14"
  by (simp add: field_simps)

text \<open>
  C9. When \<^verbatim>\<open>Run\<close> returns with \<open>Requests > 0\<close>, each percentage is the rounded quotient of
  its count by \<open>Requests\<close>, times 100 and rounded again, and the sum of
  \<open>PercentageSucceeded\<close> and \<open>PercentageFailed\<close> is 100 up to the rounding: with a
  relative rounding error of at most \<open>u\<close> it lies between \<open>100 (1 - u)\<^sup>3 / (1 + u)\<close> and
  \<open>100 (1 + u)\<^sup>3 / (1 - u)\<close>, which for binary64 (\<open>u = 2\<^sup>-\<^sup>5\<^sup>3\<close>) is less than
  \<^verbatim>\<open>5e-14\<close> away from 100. \<open>Requests\<close> is a Go \<^verbatim>\<open>int\<close>, below \<open>2\<^sup>6\<^sup>3\<close>.
\<close>

theorem percentages_sum_to_100:
  assumes run: "Run w (NewStress url method c n t vt vb) = Inr (s', e)"
    and pos: "0 < Requests (Report s')" and bound: "Requests (Report s') < 2 ^ 63"
    and rw: "rounds_within u (rounding w)" and u0: "0 \<le> u" and u1: "u \<le> 1 / 2"
  shows "\<exists>ps pf.
           PercentageSucceeded (Report s') = Float ps \<and>
           PercentageFailed (Report s') = Float pf \<and>
           ps = rounding w (rounding w (rounding w (real_of_int (Succeeded (Report s'))) /
                            rounding w (real_of_int (Requests (Report s')))) * 100) \<and>
           pf = rounding w (rounding w (rounding w (real_of_int (Failed (Report s'))) /
                            rounding w (real_of_int (Requests (Report s')))) * 100) \<and>
           100 * ((1 - u) ^ 3 / (1 + u)) \<le> ps + pf \<and>
           ps + pf \<le> 100 * ((1 + u) ^ 3 / (1 - u))"
proof -
  let ?s = "NewStress url method c n t vt vb"
  from Run_Inr [OF run] obtain ws s1 where
    m: "merge_all ?s (issued w ws) = Inr s1"
    and s': "s' = s1\<lparr>Report := finish w (Report s1)\<rparr>" by blast
  let ?r = "Report s1"
  let ?S = "Succeeded ?r" and ?F = "Failed ?r" and ?R = "Requests ?r"
  let ?rnd = "rounding w"
  define ps where "ps = ?rnd (?rnd (?rnd (real_of_int ?S) / ?rnd (real_of_int ?R)) * 100)"
  define pf where "pf = ?rnd (?rnd (?rnd (real_of_int ?F) / ?rnd (real_of_int ?R)) * 100)"
  have c: "counted ?r" using m counted_NewStress by (rule merge_all_counted)
  then have sum: "?S + ?F = ?R" and S0: "0 \<le> ?S" and F0: "0 \<le> ?F"
    by (simp_all add: counted_def)
  have R0: "0 < ?R" and Rb: "?R < 2 ^ 63" using pos bound s' by simp_all
  have SR: "?S \<le> ?R" and FR: "?F \<le> ?R" using sum S0 F0 by simp_all
  have "1 / 2 \<le> ?rnd (real_of_int ?R)" by (rule rounded_count(3) [OF rw u0 u1 R0 Rb])
  then have nz: "?rnd (real_of_int ?R) \<noteq> 0" by simp
  note bS = percentage_bounds [OF rw u0 u1 S0 SR R0 Rb, folded ps_def]
  note bF = percentage_bounds [OF rw u0 u1 F0 FR R0 Rb, folded pf_def]
  have one: "real_of_int ?S / real_of_int ?R + real_of_int ?F / real_of_int ?R = 1"
  proof -
    have "real_of_int ?S + real_of_int ?F = real_of_int ?R"
      using sum by (simp only: of_int_add [symmetric])
    moreover have "real_of_int ?R \<noteq> 0" using R0 by simp
    ultimately show ?thesis by (simp add: add_divide_distrib [symmetric])
  qed
  have "100 * ((1 - u) ^ 3 / (1 + u)) =
          100 * (real_of_int ?S / real_of_int ?R + real_of_int ?F / real_of_int ?R) *
            ((1 - u) ^ 3 / (1 + u))"
    by (simp add: one)
  also have "\<dots> = 100 * (real_of_int ?S / real_of_int ?R) * ((1 - u) ^ 3 / (1 + u)) +
                   100 * (real_of_int ?F / real_of_int ?R) * ((1 - u) ^ 3 / (1 + u))"
    by (simp only: distrib_left distrib_right)
  also have "\<dots> \<le> ps + pf" using bS(1) bF(1) by (rule add_mono)
  finally have lower: "100 * ((1 - u) ^ 3 / (1 + u)) \<le> ps + pf" .
  have "ps + pf \<le> 100 * (real_of_int ?S / real_of_int ?R) * ((1 + u) ^ 3 / (1 - u)) +
                   100 * (real_of_int ?F / real_of_int ?R) * ((1 + u) ^ 3 / (1 - u))"
    using bS(2) bF(2) by (rule add_mono)
  also have "\<dots> = 100 * (real_of_int ?S / real_of_int ?R + real_of_int ?F / real_of_int ?R) *
            ((1 + u) ^ 3 / (1 - u))"
    by (simp only: distrib_left distrib_right)
  also have "\<dots> = 100 * ((1 + u) ^ 3 / (1 - u))"
    by (simp add: one)
  finally have upper: "ps + pf \<le> 100 * ((1 + u) ^ 3 / (1 - u))" .
  have "PercentageSucceeded (Report s') = Float ps" and "PercentageFailed (Report s') = Float pf"
    using finish_percentages [OF nz] s' by (simp_all add: ps_def pf_def)
  moreover have "ps = ?rnd (?rnd (?rnd (real_of_int (Succeeded (Report s'))) /
                            ?rnd (real_of_int (Requests (Report s')))) * 100)"
    and "pf = ?rnd (?rnd (?rnd (real_of_int (Failed (Report s'))) /
                            ?rnd (real_of_int (Requests (Report s')))) * 100)"
    using s' by (simp_all add: ps_def pf_def)
  ultimately show ?thesis using lower upper by blast
qed

lemma rounds_within_round_up: "rounds_within (1 / 2 ^ 53) round_up"
proof -
  have "\<bar>round_up x - x\<bar> = 1 / 2 ^ 53 * \<bar>x\<bar>" for x
  proof -
    have eq: "round_up x - x = x * (1 / 2 ^ 53)" by (simp add: round_up_def algebra_simps)
    have "\<bar>round_up x - x\<bar> = \<bar>x * (1 / 2 ^ 53)\<bar>" by (simp only: eq)
    also have "\<dots> = \<bar>x\<bar> * \<bar>1 / 2 ^ 53\<bar>" by (rule abs_mult)
    also have "\<dots> = 1 / 2 ^ 53 * \<bar>x\<bar>" by simp
    finally show ?thesis .
  qed
  then show ?thesis by (simp add: rounds_within_def)
qed

theorem percentages_sum_to_100_witness:
  "\<exists>s'. Run (world_of example_attempts round_up)
            (NewStress ''http://localhost:8080'' ''GET'' 2 3 1 True False) = Inr (s', None) \<and>
        0 < Requests (Report s') \<and> Requests (Report s') < 2 ^ 63 \<and>
        rounds_within (1 / 2 ^ 53) (rounding (world_of example_attempts round_up)) \<and>
        (\<exists>ps pf.
           PercentageSucceeded (Report s') = Float ps \<and>
           PercentageFailed (Report s') = Float pf \<and>
           100 * ((1 - 1 / 2 ^ 53) ^ 3 / (1 + 1 / 2 ^ 53)) \<le> ps + pf \<and>
           ps + pf \<le> 100 * ((1 + 1 / 2 ^ 53) ^ 3 / (1 - 1 / 2 ^ 53)))"
proof -
  let ?w = "world_of example_attempts round_up"
  let ?s = "NewStress ''http://localhost:8080'' ''GET'' 2 3 1 True False"
  from example_run [of round_up] obtain s' where
    r: "Run ?w ?s = Inr (s', None)" and n: "Requests (Report s') = 3"
    by (auto simp: example_stress_def)
  have pos: "0 < Requests (Report s')" and bound: "Requests (Report s') < 2 ^ 63"
    using n by simp_all
  have rw: "rounds_within (1 / 2 ^ 53) (rounding ?w)"
    using rounds_within_round_up by (simp add: world_of_def)
  have u0: "(0::real) \<le> 1 / 2 ^ 53" and u1: "(1::real) / 2 ^ 53 \<le> 1 / 2" by simp_all
  from percentages_sum_to_100 [OF r pos bound rw u0 u1] r pos bound rw
  show ?thesis by blast
qed

subsection \<open>The result of \<^verbatim>\<open>Run\<close>\<close>

text \<open>
  C10. Whenever \<^verbatim>\<open>Run\<close> returns, its error result is nil: a failure of the run never
  comes back as an error value.
\<close>

theorem Run_error_is_nil:
  assumes "Run w s = Inr (s', e)"
  shows "e = None"
  using assms by (auto simp: Run_def split: sum.splits)

theorem Run_error_is_nil_witness:
  "\<exists>s' e. Run (world_of example_attempts (\<lambda>x. x)) example_stress = Inr (s', e) \<and> e = None"
proof -
  from example_run [of "\<lambda>x. x"] obtain s' e where
    r: "Run (world_of example_attempts (\<lambda>x. x)) example_stress = Inr (s', e)"
    by blast
  from Run_error_is_nil [OF r] r show ?thesis by blast
qed

end
